theory Spec2Isabelle
  imports Complex_Main
begin

section \<open>Data model of the enclosure dashboard\<close>

text \<open>
  The enclosure store (\<^verbatim>\<open>enclosure.store.ts\<close>) keeps one state object of type
  \<^verbatim>\<open>EnclosureState\<close>. JavaScript values that may be \<^verbatim>\<open>undefined\<close> are options,
  a thrown exception is the left summand of a sum.
\<close>

datatype error = TypeError | RangeError

text \<open>
  Modelled from the spec: the interfaces of \<^verbatim>\<open>app/interfaces/enclosure.interface\<close>
  and the enums of \<^verbatim>\<open>app/enums/enclosure-slot-status.enum\<close> are not part of the
  sources. A slot carries an optional pool-membership descriptor, which has a pool name
  and a disk status; the records hold the properties that the code reads.
  \<^verbatim>\<open>disk_status\<close> is a string enum. Of the element types the code names the array
  device slots and the SAS expanders.
\<close>

record EnclosureSlotPoolInfo =
  pool_name :: string
  disk_status :: string

record DashboardEnclosureSlot =
  pool_info :: "EnclosureSlotPoolInfo option"

datatype EnclosureElementType = ArrayDeviceSlot | SasExpander

text \<open>
  Modelled from the spec: an enclosure has an id, a label and slot collections keyed by
  element type. A JavaScript object used as a dictionary is the list of its own enumerable
  properties in enumeration order, so that \<^verbatim>\<open>Object.values\<close> is the list of the second
  components. A property of an enclosure object that is absent reads as
  \<^verbatim>\<open>undefined\<close>, here \<open>None\<close>: the object \<^verbatim>\<open>{label}\<close> that
  \<^verbatim>\<open>renameSelectedEnclosure\<close> builds from an \<^verbatim>\<open>undefined\<close> element has a label
  and nothing else.
\<close>

record DashboardEnclosure =
  enc_id :: "string option"
  enc_label :: "string option"
  elements :: "(EnclosureElementType \<times> (string \<times> DashboardEnclosureSlot) list) list option"

text \<open>
  A JavaScript array: \<open>items\<close> are the elements at the indices \<open>0 .. length - 1\<close>, where
  \<open>None\<close> is \<^verbatim>\<open>undefined\<close> (a hole reads as \<^verbatim>\<open>undefined\<close> too); \<open>extra\<close> holds
  the properties whose key is a number that is not an array index (a negative one), which
  an assignment \<^verbatim>\<open>a[-1] = v\<close> creates without changing the length.
\<close>

record 'a js_array =
  items :: "'a option list"
  extra :: "int \<Rightarrow> 'a option"

definition js_array_of :: "'a option list \<Rightarrow> 'a js_array" where
  "js_array_of xs = \<lparr>items = xs, extra = (\<lambda>k. None)\<rparr>"

text \<open>\<^verbatim>\<open>a[k]\<close> for a number \<open>k\<close>: out of range it is \<^verbatim>\<open>undefined\<close>.\<close>

definition js_get :: "'a js_array \<Rightarrow> int \<Rightarrow> 'a option" where
  "js_get a k =
     (if 0 \<le> k then (if nat k < length (items a) then items a ! nat k else None)
      else extra a k)"

text \<open>\<^verbatim>\<open>[...a]\<close>: a new array of the elements of \<open>a\<close>, without its other properties.\<close>

definition js_spread :: "'a js_array \<Rightarrow> 'a js_array" where
  "js_spread a = js_array_of (items a)"

text \<open>
  \<^verbatim>\<open>a[k] = v\<close>: inside the array the element is replaced; at or beyond the length the
  array grows, the indices in between being holes; a negative \<open>k\<close> sets a property that
  is not an element.
\<close>

definition js_set :: "'a js_array \<Rightarrow> int \<Rightarrow> 'a \<Rightarrow> 'a js_array" where
  "js_set a k v =
     (if 0 \<le> k then
        (if nat k < length (items a) then a\<lparr>items := (items a)[nat k := Some v]\<rparr>
         else a\<lparr>items := items a @ replicate (nat k - length (items a)) None @ [Some v]\<rparr>)
      else a\<lparr>extra := (extra a)(k := Some v)\<rparr>)"

text \<open>
  \<^verbatim>\<open>a.findIndex(p)\<close> visits the indices in ascending order, holes included, and returns
  the first index at which \<open>p\<close> holds, or \<open>-1\<close>; an exception of \<open>p\<close> ends the search.
\<close>

fun findIndex_from :: "('a option \<Rightarrow> error + bool) \<Rightarrow> 'a option list \<Rightarrow> int \<Rightarrow> error + int" where
  "findIndex_from p [] k = Inr (- 1)"
| "findIndex_from p (x # xs) k =
     (case p x of
        Inl e \<Rightarrow> Inl e
      | Inr found \<Rightarrow> if found then Inr k else findIndex_from p xs (k + 1))"

definition findIndex :: "('a option \<Rightarrow> error + bool) \<Rightarrow> 'a js_array \<Rightarrow> error + int" where
  "findIndex p a = findIndex_from p (items a) 0"

text \<open>
  Modelled from the spec: \<^verbatim>\<open>EnclosureView\<close> and \<^verbatim>\<open>EnclosureSide\<close> are enums
  declared outside the sources. The store names one member, \<^verbatim>\<open>EnclosureView.Pools\<close>;
  the other views are kept apart by their name. The sides are front, rear and top.
\<close>

datatype EnclosureView = Pools | OtherView string

datatype EnclosureSide = Front | Rear | Top

record EnclosureState =
  enclosures :: "DashboardEnclosure js_array"
  isLoading :: bool
  selectedEnclosureIndex :: int
  selectedSlot :: "DashboardEnclosureSlot option"
  selectedView :: EnclosureView
  selectedSide :: "EnclosureSide option"

definition initialState :: EnclosureState where
  "initialState =
     \<lparr>enclosures = js_array_of [],
      isLoading = True,
      selectedEnclosureIndex = 0,
      selectedSlot = None,
      selectedView = Pools,
      selectedSide = None\<rparr>"

section \<open>The updaters of the store\<close>

text \<open>
  An updater function receives the current state object and returns either that very
  object (\<^verbatim>\<open>return state\<close>) or an object that an object literal newly creates.
  The two are kept apart, since consumers compare state objects by reference.
\<close>

datatype 's returned = SameObject | NewObject 's

definition commit :: "'s \<Rightarrow> 's returned \<Rightarrow> 's" where
  "commit st r = (case r of SameObject \<Rightarrow> st | NewObject st' \<Rightarrow> st')"

text \<open>\<^verbatim>\<open>(enclosure) => enclosure.id === id\<close>; reading \<^verbatim>\<open>.id\<close> of \<^verbatim>\<open>undefined\<close> throws.\<close>

definition has_id :: "string \<Rightarrow> DashboardEnclosure option \<Rightarrow> error + bool" where
  "has_id i enclosure =
     (case enclosure of None \<Rightarrow> Inl TypeError | Some e \<Rightarrow> Inr (enc_id e = Some i))"

definition selectEnclosure_fn :: "EnclosureState \<Rightarrow> string \<Rightarrow> error + EnclosureState returned" where
  "selectEnclosure_fn state i =
     (case findIndex (has_id i) (enclosures state) of
        Inl e \<Rightarrow> Inl e
      | Inr index \<Rightarrow>
          if index = selectedEnclosureIndex state then Inr SameObject
          else Inr (NewObject (state\<lparr>selectedEnclosureIndex := index,
                                       selectedSlot := None,
                                       selectedSide := None,
                                       selectedView := Pools\<rparr>)))"

text \<open>\<^verbatim>\<open>{...e, label}\<close>: the properties of \<open>e\<close> (none when \<open>e\<close> is \<^verbatim>\<open>undefined\<close>), then the label.\<close>

definition with_label :: "DashboardEnclosure option \<Rightarrow> string \<Rightarrow> DashboardEnclosure" where
  "with_label e l =
     (case e of
        None \<Rightarrow> \<lparr>enc_id = None, enc_label = Some l, elements = None\<rparr>
      | Some enclosure \<Rightarrow> enclosure\<lparr>enc_label := Some l\<rparr>)"

definition renameSelectedEnclosure_fn :: "EnclosureState \<Rightarrow> string \<Rightarrow> EnclosureState returned" where
  "renameSelectedEnclosure_fn state l =
     (let copy = js_spread (enclosures state);
          renamed = js_set copy (selectedEnclosureIndex state)
                      (with_label (js_get copy (selectedEnclosureIndex state)) l)
      in NewObject (state\<lparr>enclosures := renamed\<rparr>))"

definition selectSlot_fn :: "EnclosureState \<Rightarrow> DashboardEnclosureSlot option \<Rightarrow> EnclosureState returned" where
  "selectSlot_fn state slot = NewObject (state\<lparr>selectedSlot := slot\<rparr>)"

definition selectView_fn :: "EnclosureState \<Rightarrow> EnclosureView \<Rightarrow> EnclosureState returned" where
  "selectView_fn state view = NewObject (state\<lparr>selectedView := view\<rparr>)"

definition selectSide_fn :: "EnclosureState \<Rightarrow> EnclosureSide option \<Rightarrow> EnclosureState returned" where
  "selectSide_fn state side =
     (if side = selectedSide state then SameObject
      else NewObject (state\<lparr>selectedSide := side, selectedSlot := None\<rparr>))"

text \<open>
  The store after a call of an updater: the returned object becomes the state; when the
  updater function throws, the exception reaches the caller and the state stays.
\<close>

definition selectEnclosure :: "string \<Rightarrow> EnclosureState \<Rightarrow> EnclosureState" where
  "selectEnclosure i st = (case selectEnclosure_fn st i of Inl e \<Rightarrow> st | Inr r \<Rightarrow> commit st r)"

definition renameSelectedEnclosure :: "string \<Rightarrow> EnclosureState \<Rightarrow> EnclosureState" where
  "renameSelectedEnclosure l st = commit st (renameSelectedEnclosure_fn st l)"

definition selectSlot :: "DashboardEnclosureSlot option \<Rightarrow> EnclosureState \<Rightarrow> EnclosureState" where
  "selectSlot slot st = commit st (selectSlot_fn st slot)"

definition selectView :: "EnclosureView \<Rightarrow> EnclosureState \<Rightarrow> EnclosureState" where
  "selectView view st = commit st (selectView_fn st view)"

definition selectSide :: "EnclosureSide option \<Rightarrow> EnclosureState \<Rightarrow> EnclosureState" where
  "selectSide side st = commit st (selectSide_fn st side)"

section \<open>The effects \<^verbatim>\<open>initiate\<close> and \<^verbatim>\<open>update\<close>\<close>

text \<open>
  Every write of the store is one of the events below. \<^verbatim>\<open>setState(initialState)\<close> and
  the two \<^verbatim>\<open>patchState\<close> calls are the writes of the effects; \<^verbatim>\<open>patchState\<close> replaces
  the named property and keeps the others.
\<close>

datatype store_event =
    SetInitialState
  | PatchEnclosures "DashboardEnclosure js_array"
  | PatchIsLoading bool
  | SelectEnclosure string
  | RenameSelectedEnclosure string
  | SelectSlot "DashboardEnclosureSlot option"
  | SelectView EnclosureView
  | SelectSide "EnclosureSide option"

fun step :: "EnclosureState \<Rightarrow> store_event \<Rightarrow> EnclosureState" where
  "step st SetInitialState = initialState"
| "step st (PatchEnclosures es) = st\<lparr>enclosures := es\<rparr>"
| "step st (PatchIsLoading b) = st\<lparr>isLoading := b\<rparr>"
| "step st (SelectEnclosure i) = selectEnclosure i st"
| "step st (RenameSelectedEnclosure l) = renameSelectedEnclosure l st"
| "step st (SelectSlot slot) = selectSlot slot st"
| "step st (SelectView view) = selectView view st"
| "step st (SelectSide side) = selectSide side st"

definition run :: "store_event list \<Rightarrow> EnclosureState" where
  "run evs = foldl step initialState evs"

text \<open>
  The remote call \<^verbatim>\<open>ws.call('webui.enclosure.dashboard')\<close> either emits the payload and
  completes, or fails with an error.
\<close>

datatype 'a call_result = Response 'a | CallFailed string

text \<open>
  \<^verbatim>\<open>initiate\<close>: \<^verbatim>\<open>tap\<close> resets the state, the inner \<^verbatim>\<open>tap\<close> patches the payload when
  one is emitted, \<^verbatim>\<open>finalize\<close> runs when the inner observable ends, by completion or by
  error. \<^verbatim>\<open>errorHandler.catchError()\<close> and \<^verbatim>\<open>delay(100)\<close> stand between the two and do
  not write to the store.
\<close>

definition initiate_events :: "DashboardEnclosure js_array call_result \<Rightarrow> store_event list" where
  "initiate_events r =
     SetInitialState #
     (case r of Response es \<Rightarrow> [PatchEnclosures es] | CallFailed e \<Rightarrow> []) @
     [PatchIsLoading False]"

definition initiate :: "DashboardEnclosure js_array call_result \<Rightarrow> EnclosureState \<Rightarrow> EnclosureState" where
  "initiate r st = foldl step st (initiate_events r)"

definition update_events :: "DashboardEnclosure js_array call_result \<Rightarrow> store_event list" where
  "update_events r = (case r of Response es \<Rightarrow> [PatchEnclosures es] | CallFailed e \<Rightarrow> [])"

definition update :: "DashboardEnclosure js_array call_result \<Rightarrow> EnclosureState \<Rightarrow> EnclosureState" where
  "update r st = foldl step st (update_events r)"

section \<open>Concrete states\<close>

definition tank_online :: EnclosureSlotPoolInfo where
  "tank_online = \<lparr>pool_name = ''tank'', disk_status = ''Online''\<rparr>"

definition tank_faulted :: EnclosureSlotPoolInfo where
  "tank_faulted = \<lparr>pool_name = ''tank'', disk_status = ''Faulted''\<rparr>"

definition shelf :: "string \<Rightarrow> (string \<times> DashboardEnclosureSlot) list \<Rightarrow> DashboardEnclosure" where
  "shelf i slots =
     \<lparr>enc_id = Some i, enc_label = Some i, elements = Some [(ArrayDeviceSlot, slots)]\<rparr>"

definition two_shelves :: "DashboardEnclosure js_array" where
  "two_shelves =
     js_array_of
       [Some (shelf ''A'' [(''1'', \<lparr>pool_info = Some tank_online\<rparr>),
                           (''2'', \<lparr>pool_info = Some tank_faulted\<rparr>),
                           (''3'', \<lparr>pool_info = None\<rparr>)]),
        Some (shelf ''B'' [])]"

definition busy_state :: EnclosureState where
  "busy_state =
     \<lparr>enclosures = two_shelves,
      isLoading = False,
      selectedEnclosureIndex = 0,
      selectedSlot = Some \<lparr>pool_info = Some tank_online\<rparr>,
      selectedView = OtherView ''Disks'',
      selectedSide = Some Rear\<rparr>"

section \<open>The index invariant as the specification words it\<close>

text \<open>
  The selected index is a valid index into the enclosures, or \<open>0\<close> when there are none.
\<close>

definition index_valid_or_zero :: "EnclosureState \<Rightarrow> bool" where
  "index_valid_or_zero st =
     (if items (enclosures st) = [] then selectedEnclosureIndex st = 0
      else 0 \<le> selectedEnclosureIndex st
           \<and> selectedEnclosureIndex st < int (length (items (enclosures st))))"

section \<open>The read-only projections and the tile view\<close>

text \<open>\<^verbatim>\<open>state.enclosures[state.selectedEnclosureIndex]\<close>.\<close>

definition selectedEnclosure :: "EnclosureState \<Rightarrow> DashboardEnclosure option" where
  "selectedEnclosure state = js_get (enclosures state) (selectedEnclosureIndex state)"

text \<open>\<^verbatim>\<open>Object.values\<close> of an object given by its properties in enumeration order.\<close>

definition Object_values :: "(string \<times> 'a) list \<Rightarrow> 'a list" where
  "Object_values obj = map snd obj"

text \<open>
  \<^verbatim>\<open>selectedEnclosure()?.elements?.[EnclosureElementType.ArrayDeviceSlot] || {}\<close>, then
  \<^verbatim>\<open>Object.values\<close>: the slots of the selected enclosure in the order of the slot
  collection, none when a link of the chain is \<^verbatim>\<open>undefined\<close>.
\<close>

definition selectedEnclosureSlots :: "EnclosureState \<Rightarrow> DashboardEnclosureSlot list" where
  "selectedEnclosureSlots state =
     (let slots =
            (case selectedEnclosure state of
               None \<Rightarrow> []
             | Some enclosure \<Rightarrow>
                 (case elements enclosure of
                    None \<Rightarrow> []
                  | Some els \<Rightarrow>
                      (case map_of els ArrayDeviceSlot of None \<Rightarrow> [] | Some s \<Rightarrow> s)))
      in Object_values slots)"

text \<open>
  A JavaScript \<^verbatim>\<open>Map\<close> is the list of its entries in insertion order. \<^verbatim>\<open>set\<close> on a
  key that is present replaces the value and keeps the position of the entry; on a new key
  it appends. \<^verbatim>\<open>new Map(entries)\<close> sets the entries one after the other.
\<close>

fun Map_set :: "'k \<Rightarrow> 'v \<Rightarrow> ('k \<times> 'v) list \<Rightarrow> ('k \<times> 'v) list" where
  "Map_set k v [] = [(k, v)]"
| "Map_set k v ((k', v') # m) =
     (if k' = k then (k', v) # m else (k', v') # Map_set k v m)"

definition new_Map :: "('k \<times> 'v) list \<Rightarrow> ('k \<times> 'v) list" where
  "new_Map entries = foldl (\<lambda>m (k, v). Map_set k v m) [] entries"

definition Map_values :: "('k \<times> 'v) list \<Rightarrow> 'v list" where
  "Map_values m = map snd m"

text \<open>\<^verbatim>\<open>xs.map(f)\<close> where the callback may throw: the first exception ends the call.\<close>

fun map_throwing :: "('a \<Rightarrow> error + 'b) \<Rightarrow> 'a list \<Rightarrow> error + 'b list" where
  "map_throwing f [] = Inr []"
| "map_throwing f (x # xs) =
     (case f x of
        Inl e \<Rightarrow> Inl e
      | Inr y \<Rightarrow> (case map_throwing f xs of Inl e \<Rightarrow> Inl e | Inr ys \<Rightarrow> Inr (y # ys)))"

text \<open>
  \<^verbatim>\<open>(slot) => [slot.pool_info.pool_name, slot.pool_info]\<close>; reading \<^verbatim>\<open>.pool_name\<close> of
  a missing \<^verbatim>\<open>pool_info\<close> throws.
\<close>

definition pool_entry :: "DashboardEnclosureSlot \<Rightarrow> error + string \<times> EnclosureSlotPoolInfo" where
  "pool_entry slot =
     (case pool_info slot of
        None \<Rightarrow> Inl TypeError
      | Some info \<Rightarrow> Inr (pool_name info, info))"

text \<open>
  \<^verbatim>\<open>poolsInfo\<close> of \<^verbatim>\<open>DisksOverviewTilesComponent\<close>: the slots with a truthy
  \<^verbatim>\<open>pool_info\<close>, their entries, the map of the entries, its values.
\<close>

definition poolsInfo_of :: "DashboardEnclosureSlot list \<Rightarrow> error + EnclosureSlotPoolInfo list" where
  "poolsInfo_of slots =
     (case map_throwing pool_entry (filter (\<lambda>slot. pool_info slot \<noteq> None) slots) of
        Inl e \<Rightarrow> Inl e
      | Inr entries \<Rightarrow> Inr (Map_values (new_Map entries)))"

definition poolsInfo :: "EnclosureState \<Rightarrow> error + EnclosureSlotPoolInfo list" where
  "poolsInfo state = poolsInfo_of (selectedEnclosureSlots state)"

text \<open>The descriptors of the slots that have one, in slot order.\<close>

definition pool_infos :: "DashboardEnclosureSlot list \<Rightarrow> EnclosureSlotPoolInfo list" where
  "pool_infos slots = concat (map (\<lambda>slot. case pool_info slot of None \<Rightarrow> [] | Some info \<Rightarrow> [info]) slots)"

text \<open>
  The list of the specification: one descriptor for each pool name, that of the first
  slot with the name.
\<close>

fun keep_first :: "string list \<Rightarrow> EnclosureSlotPoolInfo list \<Rightarrow> EnclosureSlotPoolInfo list" where
  "keep_first seen [] = []"
| "keep_first seen (p # ps) =
     (if pool_name p \<in> set seen then keep_first seen ps
      else p # keep_first (pool_name p # seen) ps)"

definition first_descriptor_per_pool :: "DashboardEnclosureSlot list \<Rightarrow> EnclosureSlotPoolInfo list" where
  "first_descriptor_per_pool slots = keep_first [] (pool_infos slots)"

section \<open>The listener for disk updates\<close>

text \<open>
  A callback subscribed to a subject: the store's \<^verbatim>\<open>() => this.update()\<close>, or a
  callback of another subscriber of the shared notifier.
\<close>

datatype listener = CallUpdate | OtherListener

text \<open>
  The store's private field \<^verbatim>\<open>disksUpdateSubscriptionId\<close> (\<^verbatim>\<open>undefined\<close> when the
  store is constructed), the \<^verbatim>\<open>Subject\<close> objects created so far, each with the callbacks
  subscribed to it (the position in the list is the identity of the subject), the registry
  of the notifier, and the number of calls of the store's \<^verbatim>\<open>update()\<close>.
\<close>

record disk_updates_world =
  disksUpdateSubscriptionId :: "string option"
  subjects :: "listener list list"
  subscribers :: "(string \<times> nat) list"
  updateCalls :: nat

text \<open>
  \<^verbatim>\<open>!this.disksUpdateSubscriptionId\<close> holds for \<^verbatim>\<open>undefined\<close> and for the empty
  string.
\<close>

definition truthy :: "string option \<Rightarrow> bool" where
  "truthy s = (case s of None \<Rightarrow> False | Some v \<Rightarrow> v \<noteq> [])"

text \<open>
  Modelled from the spec: \<^verbatim>\<open>DisksUpdateService\<close> (\<^verbatim>\<open>app/services/disks-update.service\<close>)
  is not part of the sources. The notifier is a registry from subscription ids to the
  subjects of its subscribers: \<^verbatim>\<open>addSubscriber\<close> registers the subject under the id
  that it returns, here \<open>newId\<close>. The latest update that the second argument asks to
  replay is not a notification that is fired and is left out.
\<close>

definition addSubscriber :: "string \<Rightarrow> nat \<Rightarrow> disk_updates_world \<Rightarrow> disk_updates_world" where
  "addSubscriber newId subject w = w\<lparr>subscribers := Map_set newId subject (subscribers w)\<rparr>"

text \<open>
  \<^verbatim>\<open>addListenerForDiskUpdates()\<close>, where \<open>newId\<close> is the id that the notifier returns
  when it is asked: a new subject, its registration, the id stored in the field, the
  callback subscribed to the subject.
\<close>

definition addListenerForDiskUpdates :: "string \<Rightarrow> disk_updates_world \<Rightarrow> disk_updates_world" where
  "addListenerForDiskUpdates newId w =
     (if \<not> truthy (disksUpdateSubscriptionId w) then
        (let diskUpdatesTrigger = length (subjects w);
             w1 = w\<lparr>subjects := subjects w @ [[]]\<rparr>;
             w2 = addSubscriber newId diskUpdatesTrigger w1;
             w3 = w2\<lparr>disksUpdateSubscriptionId := Some newId\<rparr>
         in w3\<lparr>subjects := (subjects w3)[diskUpdatesTrigger :=
                                subjects w3 ! diskUpdatesTrigger @ [CallUpdate]]\<rparr>)
      else w)"

text \<open>
  \<^verbatim>\<open>subject.next(disks)\<close> runs the callbacks subscribed to the subject, in order.
\<close>

fun run_listener :: "listener \<Rightarrow> disk_updates_world \<Rightarrow> disk_updates_world" where
  "run_listener CallUpdate w = w\<lparr>updateCalls := Suc (updateCalls w)\<rparr>"
| "run_listener OtherListener w = w"

definition emit :: "nat \<Rightarrow> disk_updates_world \<Rightarrow> disk_updates_world" where
  "emit subject w =
     (if subject < length (subjects w)
      then foldl (\<lambda>w' l. run_listener l w') w (subjects w ! subject)
      else w)"

text \<open>
  Modelled from the spec: the notifier, which is not part of the sources, fires a disk
  update by sending it to every subject in its registry.
\<close>

definition notify :: "disk_updates_world \<Rightarrow> disk_updates_world" where
  "notify w = foldl (\<lambda>w' (i, subject). emit subject w') w (subscribers w)"

text \<open>
  A store that has not yet asked for disk updates: its field is \<^verbatim>\<open>undefined\<close>, no
  subject has its callback, and the registry holds subjects that exist.
\<close>

definition new_store_instance :: "disk_updates_world \<Rightarrow> bool" where
  "new_store_instance w =
     (disksUpdateSubscriptionId w = None
      \<and> (\<forall>ls \<in> set (subjects w). CallUpdate \<notin> set ls)
      \<and> (\<forall>e \<in> set (subscribers w). snd e < length (subjects w)))"

text \<open>A notifier with one other subscriber, and a store just constructed.\<close>

definition shared_notifier :: disk_updates_world where
  "shared_notifier =
     \<lparr>disksUpdateSubscriptionId = None,
      subjects = [[OtherListener]],
      subscribers = [(''other'', 0)],
      updateCalls = 0\<rparr>"

text \<open>The calls of \<^verbatim>\<open>update()\<close> that one emission on the subject \<open>s\<close> makes.\<close>

definition calls_of :: "listener list list \<Rightarrow> nat \<Rightarrow> nat" where
  "calls_of subs s = (if s < length subs then count_list (subs ! s) CallUpdate else 0)"

section \<open>The CPU gauge\<close>

text \<open>
  A JavaScript number: a finite double is the rational number it denotes (the two zeros
  are one), the other three values are apart. A statement about every rational holds for
  every finite double.
\<close>

datatype js_number = Finite rat | NaN | Infinity | MinusInfinity

text \<open>The digit \<open>d\<close> as a character, and the decimal digits of an integer.\<close>

definition digit_char :: "nat \<Rightarrow> char" where
  "digit_char d = char_of (48 + d)"

fun decimal :: "nat \<Rightarrow> string" where
  "decimal n = (if n < 10 then [digit_char n] else decimal (n div 10) @ [digit_char (n mod 10)])"

declare decimal.simps [simp del]

text \<open>
  \<^verbatim>\<open>Number.prototype.toFixed\<close>, as the language specifies it. With more than 100
  fraction digits it throws. A number that is not finite gives its name. Otherwise
  the sign is set apart and, below \<open>10\<^sup>2\<^sup>1\<close>, \<open>n\<close> is the integer for which
  \<open>n / 10\<^sup>f\<close> is nearest to the number, the larger one of two; its digits are padded
  with zeros to \<open>f + 1\<close> digits and the point is put before the last \<open>f\<close>. From
  \<open>10\<^sup>2\<^sup>1\<close> on the result is the string of the number, which is the parameter
  \<open>big\<close>.
\<close>

definition with_point :: "nat \<Rightarrow> string \<Rightarrow> string" where
  "with_point f m =
     (let m' = (if length m \<le> f then replicate (f + 1 - length m) CHR ''0'' @ m else m);
          k = length m'
      in take (k - f) m' @ ''.'' @ drop (k - f) m')"

definition toFixed :: "(rat \<Rightarrow> string) \<Rightarrow> nat \<Rightarrow> js_number \<Rightarrow> error + string" where
  "toFixed big f x =
     (if 100 < f then Inl RangeError
      else
        Inr (case x of
               NaN \<Rightarrow> ''NaN''
             | Infinity \<Rightarrow> ''Infinity''
             | MinusInfinity \<Rightarrow> ''-Infinity''
             | Finite v \<Rightarrow>
                 (let s = (if v < 0 then ''-'' else []);
                      a = (if v < 0 then - v else v)
                  in if 10 ^ 21 \<le> a then s @ big a
                     else
                       (let n = nat \<lfloor>a * 10 ^ f + 1 / 2\<rfloor>;
                            m = decimal n
                        in if f \<noteq> 0 then s @ with_point f m else s @ m))))"

text \<open>
  \<^verbatim>\<open>parseInt(string)\<close> without a radix, as the language specifies it: white space is
  skipped, a sign is read, the prefix \<^verbatim>\<open>0x\<close> selects radix 16, the longest run of
  digits of the radix is the value; without a digit the result is \<^verbatim>\<open>NaN\<close>. The
  characters are the code units below 256. The result is the integer that the digits
  denote.
\<close>

definition is_whitespace :: "char \<Rightarrow> bool" where
  "is_whitespace c = ((of_char c :: nat) \<in> {9, 10, 11, 12, 13, 32, 160})"

definition digit_value :: "char \<Rightarrow> nat" where
  "digit_value c =
     (let n = (of_char c :: nat)
      in if 48 \<le> n \<and> n \<le> 57 then n - 48
         else if 97 \<le> n \<and> n \<le> 122 then n - 87
         else if 65 \<le> n \<and> n \<le> 90 then n - 55
         else 36)"

definition is_radix_digit :: "nat \<Rightarrow> char \<Rightarrow> bool" where
  "is_radix_digit R c = (digit_value c < R)"

definition has_hex_prefix :: "string \<Rightarrow> bool" where
  "has_hex_prefix S = (take 2 S = ''0x'' \<or> take 2 S = ''0X'')"

definition parseInt :: "string \<Rightarrow> js_number" where
  "parseInt string =
     (let S = dropWhile is_whitespace string;
          sign = (case S of c # cs \<Rightarrow> if c = CHR ''-'' then - 1 else 1 | [] \<Rightarrow> (1 :: int));
          S1 = (case S of c # cs \<Rightarrow> if c = CHR ''+'' \<or> c = CHR ''-'' then cs else S | [] \<Rightarrow> S);
          R = (if has_hex_prefix S1 then 16 else 10);
          S2 = (if has_hex_prefix S1 then drop 2 S1 else S1);
          Z = takeWhile (is_radix_digit R) S2
      in if Z = [] then NaN
         else Finite (of_int (sign * int (foldl (\<lambda>acc c. acc * R + digit_value c) 0 Z))))"

text \<open>
  Modelled from the spec: the type of the metrics update and \<^verbatim>\<open>GaugeConfig\<close> are
  declared outside the sources. The sample \<^verbatim>\<open>update.fields.cpu\<close> has a numeric
  \<^verbatim>\<open>average.usage\<close>; the \<^verbatim>\<open>GaugeConfig\<close> has the properties of the object that the
  component builds, \<^verbatim>\<open>data\<close> being an array of strings and numbers (\<^verbatim>\<open>max\<close> is
  \<open>gauge_max\<close> here).
\<close>

record CpuUsage =
  usage :: js_number

record AllCpusUpdate =
  average :: CpuUsage

datatype gauge_datum = Text string | Number js_number

record GaugeConfig =
  label :: bool
  data :: "gauge_datum list"
  units :: string
  diameter :: nat
  fontSize :: nat
  gauge_max :: nat
  subtitle :: string

text \<open>
  \<^verbatim>\<open>cpuAvg\<close> of \<^verbatim>\<open>CpuChartGaugeComponent\<close>. \<open>cpuData\<close> is \<^verbatim>\<open>undefined\<close>
  until a sample arrives, and reading \<^verbatim>\<open>.average\<close> then throws. \<open>instant\<close> is
  \<^verbatim>\<open>translate.instant\<close>.
\<close>

definition cpuAvg :: "(string \<Rightarrow> string) \<Rightarrow> (rat \<Rightarrow> string) \<Rightarrow> AllCpusUpdate option \<Rightarrow> error + GaugeConfig" where
  "cpuAvg instant big cpuData =
     (case cpuData of
        None \<Rightarrow> Inl TypeError
      | Some cpu \<Rightarrow>
          (case toFixed big 1 (usage (average cpu)) of
             Inl e \<Rightarrow> Inl e
           | Inr fixed \<Rightarrow>
               Inr \<lparr>label = False,
                    data = [Text ''Load'', Number (parseInt fixed)],
                    units = ''%'',
                    diameter = 136,
                    fontSize = 28,
                    gauge_max = 100,
                    subtitle = instant ''Avg Usage''\<rparr>))"

text \<open>
  The words of the specification: a number rounded to one decimal place (a tie goes away
  from zero, as in \<^verbatim>\<open>toFixed\<close>), and the integer part of a number.
\<close>

definition rounded_to_one_decimal :: "rat \<Rightarrow> rat" where
  "rounded_to_one_decimal x =
     (if x < 0 then - (of_int \<lfloor>- x * 10 + 1 / 2\<rfloor> / 10) else of_int \<lfloor>x * 10 + 1 / 2\<rfloor> / 10)"

definition integer_part :: "rat \<Rightarrow> int" where
  "integer_part r = (if r < 0 then - \<lfloor>- r\<rfloor> else \<lfloor>r\<rfloor>)"

text \<open>A sample with the average usage \<open>x\<close>.\<close>

definition sample :: "rat \<Rightarrow> AllCpusUpdate" where
  "sample x = \<lparr>average = \<lparr>usage = Finite x\<rparr>\<rparr>"

section \<open>Properties of the store\<close>

lemma findIndex_from_range:
  "findIndex_from p xs k = Inr j \<Longrightarrow> j = - 1 \<or> (k \<le> j \<and> j < k + int (length xs))"
proof (induction xs arbitrary: k)
  case Nil
  then show ?case by simp
next
  case (Cons x xs)
  show ?case
  proof (cases "p x")
    case (Inl e)
    with Cons.prems show ?thesis by simp
  next
    case (Inr found)
    show ?thesis
    proof (cases found)
      case True
      with Inr Cons.prems show ?thesis by simp
    next
      case False
      with Inr Cons.prems have "findIndex_from p xs (k + 1) = Inr j" by simp
      from Cons.IH [OF this] show ?thesis by auto
    qed
  qed
qed

lemma findIndex_from_none:
  "\<forall>x \<in> set xs. p x = Inr False \<Longrightarrow> findIndex_from p xs k = Inr (- 1)"
  by (induction xs arbitrary: k) simp_all

lemma findIndex_from_hit:
  "findIndex_from p xs k = Inr j \<Longrightarrow> j \<noteq> - 1 \<Longrightarrow> 0 \<le> k \<Longrightarrow>
     p (xs ! nat (j - k)) = Inr True"
proof (induction xs arbitrary: k)
  case Nil
  then show ?case by simp
next
  case (Cons x xs)
  show ?case
  proof (cases "p x")
    case (Inl e)
    with Cons.prems show ?thesis by simp
  next
    case (Inr found)
    show ?thesis
    proof (cases found)
      case True
      with Inr Cons.prems show ?thesis by simp
    next
      case False
      with Inr Cons.prems have run: "findIndex_from p xs (k + 1) = Inr j" by simp
      from findIndex_from_range [OF run] Cons.prems have "k + 1 \<le> j" by auto
      then have "nat (j - k) = Suc (nat (j - (k + 1)))" by simp
      moreover from Cons.IH [OF run] Cons.prems have "p (xs ! nat (j - (k + 1))) = Inr True"
        by simp
      ultimately show ?thesis by simp
    qed
  qed
qed

text \<open>
  C4. When the lookup of \<open>i\<close> gives an index other than the selected one,
  \<^verbatim>\<open>selectEnclosure(i)\<close> returns a new state whose selected index is the index found,
  which is \<open>-1\<close> when no enclosure has the id; the selected slot and side are cleared and
  the view is the Pools view, whatever they were; the enclosures and the loading flag stay.
\<close>

theorem selectEnclosure_changes_selection:
  assumes "findIndex (has_id i) (enclosures st) = Inr index"
    and "index \<noteq> selectedEnclosureIndex st"
  shows "selectEnclosure_fn st i =
           Inr (NewObject (st\<lparr>selectedEnclosureIndex := index, selectedSlot := None,
                               selectedSide := None, selectedView := Pools\<rparr>))
       \<and> selectedEnclosureIndex (selectEnclosure i st) = index
       \<and> selectedSlot (selectEnclosure i st) = None
       \<and> selectedSide (selectEnclosure i st) = None
       \<and> selectedView (selectEnclosure i st) = Pools
       \<and> (index \<noteq> - 1 \<longrightarrow>
            (\<exists>e. js_get (enclosures st) index = Some e \<and> enc_id e = Some i))
       \<and> ((\<forall>e. Some e \<in> set (items (enclosures st)) \<longrightarrow> enc_id e \<noteq> Some i) \<longrightarrow> index = - 1)"
proof -
  from assms have sel: "selectEnclosure_fn st i =
           Inr (NewObject (st\<lparr>selectedEnclosureIndex := index, selectedSlot := None,
                               selectedSide := None, selectedView := Pools\<rparr>))"
    by (simp add: selectEnclosure_fn_def)
  then have fields: "selectedEnclosureIndex (selectEnclosure i st) = index
       \<and> selectedSlot (selectEnclosure i st) = None
       \<and> selectedSide (selectEnclosure i st) = None
       \<and> selectedView (selectEnclosure i st) = Pools"
    by (simp add: selectEnclosure_def commit_def)
  have at_index: "\<exists>e. items (enclosures st) ! nat index = Some e \<and> enc_id e = Some i"
    and inside: "0 \<le> index \<and> nat index < length (items (enclosures st))"
    if "index \<noteq> - 1"
  proof -
    from assms(1) have found: "findIndex_from (has_id i) (items (enclosures st)) 0 = Inr index"
      by (simp add: findIndex_def)
    with that findIndex_from_hit [OF found] findIndex_from_range [OF found]
    have hit: "has_id i (items (enclosures st) ! nat index) = Inr True"
      and "0 \<le> index \<and> nat index < length (items (enclosures st))"
      by auto
    then show "0 \<le> index \<and> nat index < length (items (enclosures st))" by simp
    from hit show "\<exists>e. items (enclosures st) ! nat index = Some e \<and> enc_id e = Some i"
      by (auto simp: has_id_def split: option.splits)
  qed
  have found: "\<exists>e. js_get (enclosures st) index = Some e \<and> enc_id e = Some i"
    if "index \<noteq> - 1"
    using at_index [OF that] inside [OF that] by (simp add: js_get_def)
  have "index = - 1"
    if none: "\<forall>e. Some e \<in> set (items (enclosures st)) \<longrightarrow> enc_id e \<noteq> Some i"
  proof (rule ccontr)
    assume other: "index \<noteq> - 1"
    from at_index [OF other] obtain e
      where e: "items (enclosures st) ! nat index = Some e" "enc_id e = Some i"
      by blast
    from inside [OF other] e(1) have "Some e \<in> set (items (enclosures st))"
      by (metis nth_mem)
    with none e(2) show False by blast
  qed
  with sel fields found show ?thesis by blast
qed

theorem selectEnclosure_changes_selection_witness:
  "findIndex (has_id ''B'') (enclosures busy_state) = Inr 1
   \<and> 1 \<noteq> selectedEnclosureIndex busy_state
   \<and> selectedEnclosureIndex (selectEnclosure ''B'' busy_state) = 1
   \<and> selectedSlot (selectEnclosure ''B'' busy_state) = None
   \<and> selectedSide (selectEnclosure ''B'' busy_state) = None
   \<and> selectedView (selectEnclosure ''B'' busy_state) = Pools
   \<and> js_get (enclosures busy_state) 1 = Some (shelf ''B'' [])
   \<and> findIndex (has_id ''Z'') (enclosures busy_state) = Inr (- 1)
   \<and> \<not> (\<exists>e. Some e \<in> set (items (enclosures busy_state)) \<and> enc_id e = Some ''Z'')
   \<and> selectedEnclosureIndex (selectEnclosure ''Z'' busy_state) = - 1"
proof -
  have b: "findIndex (has_id ''B'') (enclosures busy_state) = Inr 1"
    by (simp add: findIndex_def has_id_def busy_state_def two_shelves_def js_array_of_def shelf_def)
  have z: "findIndex (has_id ''Z'') (enclosures busy_state) = Inr (- 1)"
    by (simp add: findIndex_def has_id_def busy_state_def two_shelves_def js_array_of_def shelf_def)
  have sel: "selectedEnclosureIndex busy_state = 0"
    by (simp add: busy_state_def)
  have none: "\<forall>e. Some e \<in> set (items (enclosures busy_state)) \<longrightarrow> enc_id e \<noteq> Some ''Z''"
    by (auto simp: busy_state_def two_shelves_def js_array_of_def shelf_def)
  from none have "\<not> (\<exists>e. Some e \<in> set (items (enclosures busy_state)) \<and> enc_id e = Some ''Z'')"
    by blast
  moreover have "js_get (enclosures busy_state) 1 = Some (shelf ''B'' [])"
    by (simp add: js_get_def busy_state_def two_shelves_def js_array_of_def)
  ultimately show ?thesis
    using selectEnclosure_changes_selection [OF b] selectEnclosure_changes_selection [OF z]
      b z sel
    by simp
qed

text \<open>
  C5. When the lookup of \<open>i\<close> gives the index that is already selected, the updater
  returns the state object it was given, and the store keeps its state. After any call
  of \<^verbatim>\<open>selectEnclosure(i)\<close> that returns, a second call with the same id returns the
  state object it was given.
\<close>

theorem selectEnclosure_same_index_noop:
  assumes "findIndex (has_id i) (enclosures st) = Inr index"
  shows "(index = selectedEnclosureIndex st \<longrightarrow>
            selectEnclosure_fn st i = Inr SameObject \<and> selectEnclosure i st = st)
       \<and> selectEnclosure_fn (selectEnclosure i st) i = Inr SameObject
       \<and> selectEnclosure i (selectEnclosure i st) = selectEnclosure i st"
proof -
  have first: "selectEnclosure_fn st i = Inr SameObject \<and> selectEnclosure i st = st"
    if "index = selectedEnclosureIndex st"
    using assms that by (simp add: selectEnclosure_fn_def selectEnclosure_def commit_def)
  have encl: "enclosures (selectEnclosure i st) = enclosures st"
    and sel: "selectedEnclosureIndex (selectEnclosure i st) = index"
    using assms by (simp_all add: selectEnclosure_fn_def selectEnclosure_def commit_def)
  from assms encl sel have second: "selectEnclosure_fn (selectEnclosure i st) i = Inr SameObject"
    by (simp add: selectEnclosure_fn_def)
  then have "selectEnclosure i (selectEnclosure i st) = selectEnclosure i st"
    by (simp add: selectEnclosure_def [of i "selectEnclosure i st"] commit_def)
  with first second show ?thesis by blast
qed

theorem selectEnclosure_same_index_noop_witness:
  "findIndex (has_id ''A'') (enclosures busy_state) = Inr 0
   \<and> 0 = selectedEnclosureIndex busy_state
   \<and> selectEnclosure_fn busy_state ''A'' = Inr SameObject
   \<and> selectEnclosure ''A'' busy_state = busy_state
   \<and> selectEnclosure_fn (selectEnclosure ''A'' busy_state) ''A'' = Inr SameObject"
proof -
  have a: "findIndex (has_id ''A'') (enclosures busy_state) = Inr 0"
    by (simp add: findIndex_def has_id_def busy_state_def two_shelves_def js_array_of_def shelf_def)
  have sel: "0 = selectedEnclosureIndex busy_state"
    by (simp add: busy_state_def)
  from selectEnclosure_same_index_noop [OF a] a sel show ?thesis by simp
qed

text \<open>
  C6. \<^verbatim>\<open>selectSide(side)\<close> with the side that is already selected returns the state
  object it was given; with another side it returns a new state with that side and no
  selected slot, and with the enclosures, the loading flag, the selected index and the
  view of the old state.
\<close>

theorem selectSide_effect:
  "(side = selectedSide st \<longrightarrow> selectSide_fn st side = SameObject \<and> selectSide side st = st)
   \<and> (side \<noteq> selectedSide st \<longrightarrow>
        selectSide_fn st side = NewObject (st\<lparr>selectedSide := side, selectedSlot := None\<rparr>)
        \<and> selectedSide (selectSide side st) = side
        \<and> selectedSlot (selectSide side st) = None
        \<and> enclosures (selectSide side st) = enclosures st
        \<and> isLoading (selectSide side st) = isLoading st
        \<and> selectedEnclosureIndex (selectSide side st) = selectedEnclosureIndex st
        \<and> selectedView (selectSide side st) = selectedView st)"
  by (simp add: selectSide_fn_def selectSide_def commit_def)

theorem selectSide_effect_witness:
  "Some Rear = selectedSide busy_state
   \<and> selectSide_fn busy_state (Some Rear) = SameObject
   \<and> selectSide (Some Rear) busy_state = busy_state
   \<and> Some Front \<noteq> selectedSide busy_state
   \<and> selectedSide (selectSide (Some Front) busy_state) = Some Front
   \<and> selectedSlot (selectSide (Some Front) busy_state) = None
   \<and> selectedSlot busy_state \<noteq> None
   \<and> selectedView (selectSide (Some Front) busy_state) = OtherView ''Disks''"
  using selectSide_effect [of "Some Rear" busy_state] selectSide_effect [of "Some Front" busy_state]
  by (simp add: busy_state_def)

text \<open>
  C7. When the remote call of \<^verbatim>\<open>initiate()\<close> fails, the store ends with
  \<open>isLoading = False\<close> and with the empty enclosures of the initial state, whatever the
  state was before.
\<close>

theorem initiate_failure_clears_loading:
  "isLoading (initiate (CallFailed e) st) = False
   \<and> enclosures (initiate (CallFailed e) st) = js_array_of []
   \<and> enclosures (initiate (CallFailed e) st) = enclosures initialState
   \<and> initiate (CallFailed e) st = initialState\<lparr>isLoading := False\<rparr>"
  by (simp add: initiate_def initiate_events_def initialState_def)

text \<open>
  C8. \<^verbatim>\<open>update()\<close> keeps the loading flag, the selected index, slot, view and side of
  the state it finds. When the remote call succeeds the enclosures become the payload
  and nothing else changes; when it fails the state is the one before.
\<close>

theorem update_frame:
  "update (Response es) st = st\<lparr>enclosures := es\<rparr>
   \<and> update (CallFailed e) st = st
   \<and> isLoading (update r st) = isLoading st
   \<and> selectedEnclosureIndex (update r st) = selectedEnclosureIndex st
   \<and> selectedSlot (update r st) = selectedSlot st
   \<and> selectedView (update r st) = selectedView st
   \<and> selectedSide (update r st) = selectedSide st"
  by (cases r) (simp_all add: update_def update_events_def)

text \<open>
  C10. When the selected index is \<open>-1\<close>, \<^verbatim>\<open>renameSelectedEnclosure(l)\<close> returns a new
  state whose enclosures array has the elements of the old one, each unchanged, and
  whose other fields are those of the old state. The assignment at \<open>-1\<close> leaves the
  object \<^verbatim>\<open>{label: l}\<close> as the property \<open>-1\<close> of the copied array, outside its elements.
\<close>

theorem rename_without_selection_keeps_enclosures:
  assumes "selectedEnclosureIndex st = - 1"
  shows "items (enclosures (renameSelectedEnclosure l st)) = items (enclosures st)
       \<and> isLoading (renameSelectedEnclosure l st) = isLoading st
       \<and> selectedEnclosureIndex (renameSelectedEnclosure l st) = selectedEnclosureIndex st
       \<and> selectedSlot (renameSelectedEnclosure l st) = selectedSlot st
       \<and> selectedView (renameSelectedEnclosure l st) = selectedView st
       \<and> selectedSide (renameSelectedEnclosure l st) = selectedSide st
       \<and> renameSelectedEnclosure_fn st l =
           NewObject (st\<lparr>enclosures :=
             \<lparr>items = items (enclosures st),
              extra = (\<lambda>k. None)(- 1 := Some \<lparr>enc_id = None, enc_label = Some l, elements = None\<rparr>)\<rparr>\<rparr>)"
  using assms
  by (simp add: renameSelectedEnclosure_def renameSelectedEnclosure_fn_def commit_def
      js_spread_def js_array_of_def js_set_def js_get_def with_label_def)

theorem rename_without_selection_keeps_enclosures_witness:
  "selectedEnclosureIndex (selectEnclosure ''Z'' busy_state) = - 1
   \<and> items (enclosures (renameSelectedEnclosure ''new'' (selectEnclosure ''Z'' busy_state)))
       = items two_shelves"
proof -
  have z: "selectedEnclosureIndex (selectEnclosure ''Z'' busy_state) = - 1"
    by (simp add: selectEnclosure_def selectEnclosure_fn_def commit_def findIndex_def has_id_def
        busy_state_def two_shelves_def js_array_of_def shelf_def)
  have e: "enclosures (selectEnclosure ''Z'' busy_state) = two_shelves"
    by (simp add: selectEnclosure_def selectEnclosure_fn_def commit_def findIndex_def has_id_def
        busy_state_def two_shelves_def js_array_of_def shelf_def)
  from rename_without_selection_keeps_enclosures [OF z, of "''new''"] z e show ?thesis by simp
qed

lemma selectEnclosure_index_lower:
  "- 1 \<le> selectedEnclosureIndex st \<Longrightarrow> - 1 \<le> selectedEnclosureIndex (selectEnclosure i st)"
proof (cases "findIndex (has_id i) (enclosures st)")
  case (Inl e)
  assume "- 1 \<le> selectedEnclosureIndex st"
  with Inl show ?thesis by (simp add: selectEnclosure_def selectEnclosure_fn_def)
next
  case (Inr j)
  assume old: "- 1 \<le> selectedEnclosureIndex st"
  from Inr have "findIndex_from (has_id i) (items (enclosures st)) 0 = Inr j"
    by (simp add: findIndex_def)
  from findIndex_from_range [OF this] have "- 1 \<le> j" by auto
  with Inr old show ?thesis
    by (simp add: selectEnclosure_def selectEnclosure_fn_def commit_def)
qed

lemma step_index_lower:
  "- 1 \<le> selectedEnclosureIndex st \<Longrightarrow> - 1 \<le> selectedEnclosureIndex (step st ev)"
  by (cases ev)
    (simp_all add: selectEnclosure_index_lower initialState_def renameSelectedEnclosure_def
      renameSelectedEnclosure_fn_def selectSlot_def selectSlot_fn_def selectView_def
      selectView_fn_def selectSide_def selectSide_fn_def commit_def Let_def)

lemma foldl_step_index_lower:
  "- 1 \<le> selectedEnclosureIndex st \<Longrightarrow> - 1 \<le> selectedEnclosureIndex (foldl step st evs)"
  by (induction evs arbitrary: st) (simp_all add: step_index_lower)

lemma selectEnclosure_fn_index:
  assumes "selectEnclosure_fn st i = Inr r"
  shows "findIndex (has_id i) (enclosures st) = Inr (selectedEnclosureIndex (commit st r))
       \<and> enclosures (commit st r) = enclosures st"
  using assms
  by (auto simp: selectEnclosure_fn_def commit_def split: sum.splits if_splits)

text \<open>
  C3, as amended. In every state that a sequence of writes of the store reaches from the
  initial state, the selected index is at least \<open>-1\<close>. When \<^verbatim>\<open>selectEnclosure(i)\<close>
  returns in such a state, the selected index of the state it leaves is \<open>-1\<close> or a
  valid index into the enclosures of that state. The writes of \<^verbatim>\<open>update\<close> and
  \<^verbatim>\<open>initiate\<close> replace the enclosures and do not look at the index.
\<close>

theorem selectedEnclosureIndex_reachable:
  "- 1 \<le> selectedEnclosureIndex (run evs)
   \<and> (selectEnclosure_fn (run evs) i = Inr r \<longrightarrow>
        selectedEnclosureIndex (commit (run evs) r) = - 1
        \<or> (0 \<le> selectedEnclosureIndex (commit (run evs) r)
            \<and> selectedEnclosureIndex (commit (run evs) r)
                < int (length (items (enclosures (commit (run evs) r))))))"
proof -
  have lower: "- 1 \<le> selectedEnclosureIndex (run evs)"
    unfolding run_def by (rule foldl_step_index_lower) (simp add: initialState_def)
  have "selectedEnclosureIndex (commit (run evs) r) = - 1
        \<or> (0 \<le> selectedEnclosureIndex (commit (run evs) r)
            \<and> selectedEnclosureIndex (commit (run evs) r)
                < int (length (items (enclosures (commit (run evs) r)))))"
    if ret: "selectEnclosure_fn (run evs) i = Inr r"
  proof -
    from selectEnclosure_fn_index [OF ret]
    have "findIndex_from (has_id i) (items (enclosures (commit (run evs) r))) 0
            = Inr (selectedEnclosureIndex (commit (run evs) r))"
      by (simp add: findIndex_def)
    from findIndex_from_range [OF this] show ?thesis by auto
  qed
  with lower show ?thesis by blast
qed

theorem selectedEnclosureIndex_reachable_witness:
  "selectEnclosure_fn (run [PatchEnclosures two_shelves]) ''B''
     = Inr (NewObject ((run [PatchEnclosures two_shelves])\<lparr>selectedEnclosureIndex := 1\<rparr>))
   \<and> selectedEnclosureIndex (run [PatchEnclosures two_shelves, SelectEnclosure ''B'']) = 1
   \<and> length (items (enclosures (run [PatchEnclosures two_shelves, SelectEnclosure ''B'']))) = 2"
proof -
  have r: "selectEnclosure_fn (run [PatchEnclosures two_shelves]) ''B''
     = Inr (NewObject ((run [PatchEnclosures two_shelves])\<lparr>selectedEnclosureIndex := 1\<rparr>))"
    by (simp add: run_def initialState_def selectEnclosure_fn_def findIndex_def has_id_def
        two_shelves_def js_array_of_def shelf_def)
  from selectedEnclosureIndex_reachable [of "[PatchEnclosures two_shelves]" "''B''"] r
  show ?thesis
    by (simp add: run_def initialState_def selectEnclosure_def selectEnclosure_fn_def
        findIndex_def has_id_def commit_def two_shelves_def js_array_of_def shelf_def)
qed

text \<open>
  C3, as stated, fails in the state after \<^verbatim>\<open>selectEnclosure('missing')\<close> on the
  initial state: there are no enclosures and the selected index is \<open>-1\<close>, not \<open>0\<close>.
\<close>

theorem selectEnclosure_unknown_id_counterexample:
  "\<not> index_valid_or_zero (run [SelectEnclosure ''missing''])"
  by (simp add: index_valid_or_zero_def run_def initialState_def selectEnclosure_def
      selectEnclosure_fn_def findIndex_def commit_def js_array_of_def)

text \<open>
  It fails as well after an update whose payload is shorter than the selected index.
\<close>

lemma update_keeps_stale_index:
  "\<not> index_valid_or_zero
       (run ([PatchEnclosures two_shelves, SelectEnclosure ''B'']
             @ update_events (Response (js_array_of [Some (shelf ''A'' [])]))))"
  by (simp add: index_valid_or_zero_def run_def initialState_def selectEnclosure_def
      selectEnclosure_fn_def findIndex_def has_id_def commit_def two_shelves_def
      js_array_of_def shelf_def update_events_def)

section \<open>Properties of the tile view\<close>

lemma new_Map_snoc: "new_Map (es @ [(k, v)]) = Map_set k v (new_Map es)"
  by (simp add: new_Map_def)

lemma keys_Map_set:
  "map fst (Map_set k v m) = (if k \<in> fst ` set m then map fst m else map fst m @ [k])"
proof (induction m)
  case Nil
  show ?case by simp
next
  case (Cons e m)
  obtain k' v' where e: "e = (k', v')" by (cases e)
  show ?case
  proof (cases "k' = k")
    case True
    then show ?thesis by (simp add: e)
  next
    case False
    with Cons.IH show ?thesis by (simp add: e)
  qed
qed

lemma map_of_Map_set: "map_of (Map_set k v m) = (map_of m)(k \<mapsto> v)"
  by (induction m) (auto simp: fun_eq_iff)

lemma keys_new_Map: "map fst (new_Map es) = rev (remdups (rev (map fst es)))"
proof (induction es rule: rev_induct)
  case Nil
  show ?case by (simp add: new_Map_def)
next
  case (snoc e es)
  obtain k v where e: "e = (k, v)" by (cases e)
  have "fst ` set (new_Map es) = fst ` set es"
    using arg_cong [OF snoc.IH, of set] by simp
  with snoc.IH show ?case
    by (simp add: e new_Map_snoc keys_Map_set)
qed

lemma map_of_new_Map: "map_of (new_Map es) = map_of (rev es)"
proof (induction es rule: rev_induct)
  case Nil
  show ?case by (simp add: new_Map_def)
next
  case (snoc e es)
  obtain k v where e: "e = (k, v)" by (cases e)
  from snoc.IH show ?case by (simp add: e new_Map_snoc map_of_Map_set)
qed

lemma distinct_keys_new_Map: "distinct (map fst (new_Map es))"
  by (simp add: keys_new_Map)

lemma alist_by_keys:
  "distinct (map fst m) \<Longrightarrow> map snd m = map (\<lambda>k. the (map_of m k)) (map fst m)"
proof (induction m)
  case Nil
  show ?case by simp
next
  case (Cons e m)
  obtain a b where e: "e = (a, b)" by (cases e)
  from Cons.prems e have fresh: "a \<notin> fst ` set m" and rest: "distinct (map fst m)"
    by simp_all
  have "map (\<lambda>k. the (map_of (e # m) k)) (map fst m) = map (\<lambda>k. the (map_of m k)) (map fst m)"
  proof (rule map_cong [OF refl])
    fix k assume "k \<in> set (map fst m)"
    with fresh have "k \<noteq> a" by auto
    then show "the (map_of (e # m) k) = the (map_of m k)" by (simp add: e)
  qed
  with Cons.IH [OF rest] show ?case by (simp add: e)
qed

lemma values_new_Map:
  "Map_values (new_Map es) =
     map (\<lambda>k. the (map_of (rev es) k)) (rev (remdups (rev (map fst es))))"
  using alist_by_keys [OF distinct_keys_new_Map, of es]
  by (simp add: Map_values_def map_of_new_Map keys_new_Map)

lemma map_of_rev_keyed:
  "n \<in> f ` set ps \<Longrightarrow>
     map_of (rev (map (\<lambda>p. (f p, p)) ps)) n = Some (last (filter (\<lambda>p. f p = n) ps))"
proof (induction ps rule: rev_induct)
  case Nil
  then show ?case by simp
next
  case (snoc p ps)
  show ?case
  proof (cases "f p = n")
    case True
    then show ?thesis by simp
  next
    case False
    with snoc.prems have "n \<in> f ` set ps" by auto
    from snoc.IH [OF this] False show ?thesis by simp
  qed
qed

lemma map_throwing_total:
  "\<forall>x \<in> set xs. f x = Inr (g x) \<Longrightarrow> map_throwing f xs = Inr (map g xs)"
  by (induction xs) simp_all

lemma entries_of_slots:
  "map_throwing pool_entry (filter (\<lambda>slot. pool_info slot \<noteq> None) slots)
     = Inr (map (\<lambda>p. (pool_name p, p)) (pool_infos slots))"
proof -
  have "map_throwing pool_entry (filter (\<lambda>slot. pool_info slot \<noteq> None) slots)
     = Inr (map (\<lambda>slot. (pool_name (the (pool_info slot)), the (pool_info slot)))
              (filter (\<lambda>slot. pool_info slot \<noteq> None) slots))"
    by (rule map_throwing_total) (auto simp: pool_entry_def)
  moreover have "map (\<lambda>slot. (pool_name (the (pool_info slot)), the (pool_info slot)))
              (filter (\<lambda>slot. pool_info slot \<noteq> None) slots)
           = map (\<lambda>p. (pool_name p, p)) (pool_infos slots)"
    by (induction slots) (auto simp: pool_infos_def)
  ultimately show ?thesis by simp
qed

text \<open>
  C1, as amended. \<^verbatim>\<open>poolsInfo\<close> does not throw. It holds one descriptor for each pool
  name among the slots of the selected enclosure that have a \<^verbatim>\<open>pool_info\<close>, the names
  in the order of their first occurrence in slot order; the descriptor of a name is that
  of the last slot with the name.
\<close>

theorem poolsInfo_last_descriptor_per_pool:
  "poolsInfo state =
     Inr (map (\<lambda>n. last (filter (\<lambda>p. pool_name p = n) (pool_infos (selectedEnclosureSlots state))))
            (rev (remdups (rev (map pool_name (pool_infos (selectedEnclosureSlots state)))))))"
proof -
  let ?ps = "pool_infos (selectedEnclosureSlots state)"
  let ?es = "map (\<lambda>p. (pool_name p, p)) ?ps"
  have keys: "map fst ?es = map pool_name ?ps" by (simp add: comp_def)
  have "map (\<lambda>k. the (map_of (rev ?es) k)) (rev (remdups (rev (map pool_name ?ps))))
      = map (\<lambda>n. last (filter (\<lambda>p. pool_name p = n) ?ps)) (rev (remdups (rev (map pool_name ?ps))))"
    by (rule map_cong [OF refl]) (simp add: map_of_rev_keyed rev_map [symmetric])
  moreover have "poolsInfo state = Inr (Map_values (new_Map ?es))"
    by (simp only: poolsInfo_def poolsInfo_of_def entries_of_slots sum.case)
  ultimately show ?thesis
    by (simp only: values_new_Map keys)
qed

text \<open>
  C1, as stated, fails for an enclosure whose first slot is an online disk of the pool
  \<^verbatim>\<open>tank\<close> and whose second slot is a faulted disk of the same pool: the descriptor
  kept is that of the second slot.
\<close>

theorem poolsInfo_first_descriptor_counterexample:
  "selectedEnclosure busy_state \<noteq> None
   \<and> poolsInfo busy_state = Inr [tank_faulted]
   \<and> first_descriptor_per_pool (selectedEnclosureSlots busy_state) = [tank_online]
   \<and> poolsInfo busy_state \<noteq> Inr (first_descriptor_per_pool (selectedEnclosureSlots busy_state))"
  by (simp add: poolsInfo_def poolsInfo_of_def selectedEnclosureSlots_def selectedEnclosure_def
      js_get_def Object_values_def busy_state_def two_shelves_def js_array_of_def shelf_def
      pool_entry_def new_Map_def Map_values_def first_descriptor_per_pool_def pool_infos_def
      tank_online_def tank_faulted_def)

section \<open>Properties of the listener for disk updates\<close>

lemma run_listeners:
  "foldl (\<lambda>w' l. run_listener l w') w ls = w\<lparr>updateCalls := updateCalls w + count_list ls CallUpdate\<rparr>"
proof (induction ls arbitrary: w)
  case Nil
  show ?case by simp
next
  case (Cons l ls)
  show ?case by (cases l) (simp_all add: Cons.IH)
qed

lemma emit_calls:
  "emit s w = w\<lparr>updateCalls := updateCalls w + calls_of (subjects w) s\<rparr>"
  by (simp add: emit_def calls_of_def run_listeners)

lemma notify_entries:
  "foldl (\<lambda>w' (i, subject). emit subject w') w es
     = w\<lparr>updateCalls := updateCalls w + sum_list (map (\<lambda>e. calls_of (subjects w) (snd e)) es)\<rparr>"
proof (induction es arbitrary: w)
  case Nil
  show ?case by simp
next
  case (Cons e es)
  obtain i s where e: "e = (i, s)" by (cases e)
  let ?F = "\<lambda>w' (i, subject). emit subject w'"
  have "foldl ?F w (e # es) = foldl ?F (emit s w) es"
    by (simp add: e)
  also have "\<dots> = (emit s w)\<lparr>updateCalls := updateCalls (emit s w)
                 + sum_list (map (\<lambda>e. calls_of (subjects (emit s w)) (snd e)) es)\<rparr>"
    by (rule Cons.IH)
  also have "\<dots> = w\<lparr>updateCalls := updateCalls w
                 + sum_list (map (\<lambda>e. calls_of (subjects w) (snd e)) (e # es))\<rparr>"
    by (simp add: emit_calls e)
  finally show ?case .
qed

lemma notify_calls:
  "updateCalls (notify w)
     = updateCalls w + sum_list (map (\<lambda>e. calls_of (subjects w) (snd e)) (subscribers w))"
  by (simp add: notify_def notify_entries)

lemma calls_of_registered:
  fixes g :: "nat \<Rightarrow> nat"
  assumes "\<forall>e \<in> set m. g (snd e) = 0"
  shows "sum_list (map (\<lambda>e. g (snd e)) (Map_set k n m)) = g n"
  using assms
proof (induction m)
  case Nil
  show ?case by simp
next
  case (Cons e m)
  obtain k' v' where e: "e = (k', v')" by (cases e)
  from Cons.prems have rest: "\<forall>e \<in> set m. g (snd e) = 0" and here: "g v' = 0"
    by (simp_all add: e)
  then have "sum_list (map (\<lambda>e. g (snd e)) m) = 0" by simp
  with Cons.IH [OF rest] here show ?case by (simp add: e)
qed

lemma first_call_subscribes:
  assumes "\<not> truthy (disksUpdateSubscriptionId w)"
  shows "addListenerForDiskUpdates newId w =
           w\<lparr>disksUpdateSubscriptionId := Some newId,
              subjects := subjects w @ [[CallUpdate]],
              subscribers := Map_set newId (length (subjects w)) (subscribers w)\<rparr>"
  using assms by (simp add: addListenerForDiskUpdates_def addSubscriber_def Let_def)

text \<open>
  C9. When the id that the notifier returned to the first call of
  \<^verbatim>\<open>addListenerForDiskUpdates()\<close> is not the empty string, a second call changes
  nothing: no subject is created and none is registered. For a store that had not asked
  before, the registry then holds one entry more than before the first call (or the same
  entries when the id was in use), and a notification that is fired calls \<^verbatim>\<open>update()\<close>
  once.
\<close>

theorem addListenerForDiskUpdates_idempotent:
  assumes "id1 \<noteq> []"
  shows "addListenerForDiskUpdates id2 (addListenerForDiskUpdates id1 w)
           = addListenerForDiskUpdates id1 w
       \<and> (new_store_instance w \<longrightarrow>
            subscribers (addListenerForDiskUpdates id2 (addListenerForDiskUpdates id1 w))
              = Map_set id1 (length (subjects w)) (subscribers w)
            \<and> updateCalls (notify (addListenerForDiskUpdates id2 (addListenerForDiskUpdates id1 w)))
                = Suc (updateCalls w))"
proof -
  have subscribed: "truthy (disksUpdateSubscriptionId (addListenerForDiskUpdates id1 w))"
    using assms by (simp add: addListenerForDiskUpdates_def addSubscriber_def truthy_def Let_def)
  then have twice: "addListenerForDiskUpdates id2 (addListenerForDiskUpdates id1 w)
           = addListenerForDiskUpdates id1 w"
    by (simp add: addListenerForDiskUpdates_def [of id2])
  have "subscribers (addListenerForDiskUpdates id1 w)
              = Map_set id1 (length (subjects w)) (subscribers w)
        \<and> updateCalls (notify (addListenerForDiskUpdates id1 w)) = Suc (updateCalls w)"
    if new: "new_store_instance w"
  proof -
    let ?n = "length (subjects w)"
    let ?subs = "subjects w @ [[CallUpdate]]"
    from new have "\<not> truthy (disksUpdateSubscriptionId w)"
      by (simp add: new_store_instance_def truthy_def)
    note first = first_call_subscribes [OF this, of id1]
    have old: "\<forall>e \<in> set (subscribers w). calls_of ?subs (snd e) = 0"
    proof
      fix e assume e: "e \<in> set (subscribers w)"
      with new have inside: "snd e < ?n" by (simp add: new_store_instance_def)
      with new have "CallUpdate \<notin> set (subjects w ! snd e)"
        by (simp add: new_store_instance_def)
      with inside show "calls_of ?subs (snd e) = 0"
        by (simp add: calls_of_def nth_append)
    qed
    have "calls_of ?subs ?n = 1" by (simp add: calls_of_def)
    with calls_of_registered [of "subscribers w" "calls_of ?subs", OF old, of id1 ?n]
    have "sum_list (map (\<lambda>e. calls_of ?subs (snd e)) (Map_set id1 ?n (subscribers w))) = 1"
      by simp
    then show ?thesis by (simp add: notify_calls first)
  qed
  with twice show ?thesis by simp
qed

theorem addListenerForDiskUpdates_idempotent_witness:
  "''sub-1'' \<noteq> []
   \<and> new_store_instance shared_notifier
   \<and> subscribers (addListenerForDiskUpdates ''sub-2'' (addListenerForDiskUpdates ''sub-1'' shared_notifier))
       = [(''other'', 0), (''sub-1'', 1)]
   \<and> updateCalls (notify (addListenerForDiskUpdates ''sub-2''
        (addListenerForDiskUpdates ''sub-1'' shared_notifier))) = 1"
proof -
  have new: "new_store_instance shared_notifier"
    by (simp add: new_store_instance_def shared_notifier_def)
  have "''sub-1'' \<noteq> []" by simp
  from addListenerForDiskUpdates_idempotent [OF this, of "''sub-2''" shared_notifier] new
  have registry: "subscribers (addListenerForDiskUpdates ''sub-2''
                      (addListenerForDiskUpdates ''sub-1'' shared_notifier))
                    = Map_set ''sub-1'' (length (subjects shared_notifier)) (subscribers shared_notifier)"
    and calls: "updateCalls (notify (addListenerForDiskUpdates ''sub-2''
                      (addListenerForDiskUpdates ''sub-1'' shared_notifier)))
                    = Suc (updateCalls shared_notifier)"
    by blast+
  have "Map_set ''sub-1'' (length (subjects shared_notifier)) (subscribers shared_notifier)
          = [(''other'', 0), (''sub-1'', 1)]"
    and "updateCalls shared_notifier = 0"
    by (simp_all add: shared_notifier_def)
  with registry calls new show ?thesis by simp
qed

text \<open>
  The id has to be truthy: after an empty id the second call registers a second subject.
\<close>

lemma empty_id_subscribes_again:
  "subscribers (addListenerForDiskUpdates ''sub-2'' (addListenerForDiskUpdates [] shared_notifier))
     = [(''other'', 0), ([], 1), (''sub-2'', 2)]
   \<and> updateCalls (notify (addListenerForDiskUpdates ''sub-2''
        (addListenerForDiskUpdates [] shared_notifier))) = 2"
  by (simp add: addListenerForDiskUpdates_def addSubscriber_def truthy_def shared_notifier_def
      notify_def emit_def Let_def)

section \<open>Properties of the CPU gauge\<close>

lemma of_char_digit: "d < 10 \<Longrightarrow> (of_char (digit_char d) :: nat) = 48 + d"
  by (simp add: digit_char_def)

lemma digit_char_0: "digit_char 0 = CHR ''0''"
proof -
  have "(of_char (digit_char 0) :: nat) = of_char CHR ''0''"
    by (simp add: of_char_digit)
  then show ?thesis by (simp only: of_char_eq_iff)
qed

lemma digit_value_digit: "d < 10 \<Longrightarrow> digit_value (digit_char d) = d"
  by (simp add: digit_value_def of_char_digit)

lemma digit_is_radix_digit: "d < 10 \<Longrightarrow> is_radix_digit 10 (digit_char d)"
  by (simp add: is_radix_digit_def digit_value_digit)

lemma digit_not_whitespace: "d < 10 \<Longrightarrow> \<not> is_whitespace (digit_char d)"
  by (simp add: is_whitespace_def of_char_digit)

lemma digit_not_other:
  assumes "d < 10" and "(of_char c :: nat) < 48 \<or> 57 < (of_char c :: nat)"
  shows "digit_char d \<noteq> c"
proof
  assume "digit_char d = c"
  then have "(of_char c :: nat) = 48 + d" using assms(1) by (simp add: of_char_digit [symmetric])
  with assms show False by auto
qed

lemma decimal_digits: "c \<in> set (decimal n) \<Longrightarrow> \<exists>d<10. c = digit_char d"
proof (induction n rule: decimal.induct)
  case (1 n)
  show ?case
  proof (cases "n < 10")
    case True
    with "1.prems" show ?thesis by (auto simp: decimal.simps [of n])
  next
    case False
    with "1.prems" have "c \<in> set (decimal (n div 10)) \<or> c = digit_char (n mod 10)"
      by (auto simp: decimal.simps [of n])
    then show ?thesis
    proof
      assume "c \<in> set (decimal (n div 10))"
      with "1.IH" False show ?thesis by simp
    next
      assume "c = digit_char (n mod 10)"
      moreover have "n mod 10 < 10" by simp
      ultimately show ?thesis by blast
    qed
  qed
qed

lemma decimal_nonempty: "decimal n \<noteq> []"
  by (simp add: decimal.simps [of n])

lemma decimal_value: "foldl (\<lambda>acc c. acc * 10 + digit_value c) 0 (decimal n) = n"
proof (induction n rule: decimal.induct)
  case (1 n)
  show ?case
  proof (cases "n < 10")
    case True
    then show ?thesis by (simp add: decimal.simps [of n] digit_value_digit)
  next
    case False
    with "1.IH" have "foldl (\<lambda>acc c. acc * 10 + digit_value c) 0 (decimal (n div 10)) = n div 10"
      by simp
    with False show ?thesis by (simp add: decimal.simps [of n] digit_value_digit)
  qed
qed

lemma point_after_digits:
  "with_point 1 (decimal n) = decimal (n div 10) @ ''.'' @ [digit_char (n mod 10)]"
proof (cases "n < 10")
  case True
  then show ?thesis
    by (simp add: with_point_def decimal.simps [of n] decimal.simps [of 0] digit_char_0)
next
  case False
  then have "decimal n = decimal (n div 10) @ [digit_char (n mod 10)]"
    by (simp add: decimal.simps [of n])
  moreover have "decimal (n div 10) \<noteq> []" by (rule decimal_nonempty)
  ultimately show ?thesis by (simp add: with_point_def Let_def)
qed

lemma toFixed_one:
  assumes "\<bar>v\<bar> < 10 ^ 21"
  shows "toFixed big 1 (Finite v) =
           Inr ((if v < 0 then [CHR ''-''] else []) @
                decimal (nat \<lfloor>\<bar>v\<bar> * 10 + 1 / 2\<rfloor> div 10) @ CHR ''.'' #
                [digit_char (nat \<lfloor>\<bar>v\<bar> * 10 + 1 / 2\<rfloor> mod 10)])"
proof -
  have a: "(if v < 0 then - v else v) = \<bar>v\<bar>" by simp
  from assms have small: "\<not> 10 ^ 21 \<le> \<bar>v\<bar>" by simp
  show ?thesis
    unfolding toFixed_def js_number.case Let_def a
    using small by (simp add: point_after_digits [unfolded One_nat_def])
qed

lemma parseInt_digits:
  assumes sign: "sign = (if neg then - 1 else 1)"
  shows "parseInt ((if neg then [CHR ''-''] else []) @ decimal q @ CHR ''.'' # rest)
           = Finite (of_int (sign * int q))"
proof -
  obtain c cs where q: "decimal q = c # cs"
    using decimal_nonempty [of q] by (cases "decimal q") auto
  have digits: "\<forall>x \<in> set (decimal q). is_radix_digit 10 x"
    using decimal_digits digit_is_radix_digit by blast
  obtain d where d: "d < 10" "c = digit_char d"
    using decimal_digits [of c q] q by auto
  let ?t = "cs @ CHR ''.'' # rest"
  have ws: "\<not> is_whitespace c" using d by (simp add: digit_not_whitespace)
  have minus_ws: "\<not> is_whitespace CHR ''-''" by (simp add: is_whitespace_def)
  have no_sign: "c \<noteq> CHR ''-''" "c \<noteq> CHR ''+''"
    using d by (simp_all add: digit_not_other)
  have second: "take 1 ?t \<noteq> ''x'' \<and> take 1 ?t \<noteq> ''X''"
  proof (cases cs)
    case Nil
    then show ?thesis by simp
  next
    case (Cons c2 cs2)
    with q have "c2 \<in> set (decimal q)" by simp
    then obtain d2 where "d2 < 10" "c2 = digit_char d2" using decimal_digits by blast
    then have "c2 \<noteq> CHR ''x''" "c2 \<noteq> CHR ''X''" by (simp_all add: digit_not_other)
    with Cons show ?thesis by simp
  qed
  then have nohex: "\<not> has_hex_prefix (c # ?t)"
    by (simp add: has_hex_prefix_def numeral_2_eq_2)
  have point: "\<not> is_radix_digit 10 CHR ''.''"
    by (simp add: is_radix_digit_def digit_value_def)
  have "takeWhile (is_radix_digit 10) (decimal q @ CHR ''.'' # rest) = decimal q"
    using digits point by simp
  then have Z: "takeWhile (is_radix_digit 10) (c # ?t) = c # cs"
    by (simp add: q)
  have val: "foldl (\<lambda>acc c. acc * 10 + digit_value c) 0 (c # cs) = q"
    using decimal_value [of q] by (simp only: q)
  have "parseInt ((if neg then [CHR ''-''] else []) @ c # ?t) = Finite (of_int (sign * int q))"
  proof (cases neg)
    case True
    have "parseInt (CHR ''-'' # c # ?t) = Finite (of_int (- 1 * int q))"
      unfolding parseInt_def Let_def
      by (simp add: minus_ws nohex Z val del: foldl_Cons takeWhile.simps)
    with True sign show ?thesis by simp
  next
    case False
    have "parseInt (c # ?t) = Finite (of_int (1 * int q))"
      unfolding parseInt_def Let_def
      by (simp add: ws no_sign nohex Z val del: foldl_Cons takeWhile.simps)
    with False sign show ?thesis by simp
  qed
  then show ?thesis by (simp add: q)
qed

lemma integer_part_tenths:
  assumes "0 \<le> m"
  shows "integer_part (of_int m / 10) = m div 10"
    and "integer_part (- (of_int m / 10)) = - (m div 10)"
proof -
  have fl: "\<lfloor>(of_int m :: rat) / 10\<rfloor> = m div 10"
    using floor_divide_of_int_eq [of m 10, where ?'a = rat] by simp
  from assms fl show "integer_part (of_int m / 10) = m div 10"
    by (simp add: integer_part_def)
  show "integer_part (- (of_int m / 10)) = - (m div 10)"
  proof (cases "m = 0")
    case True
    then show ?thesis by (simp add: integer_part_def)
  next
    case False
    with assms have "0 < m" by simp
    then have "- ((of_int m :: rat) / 10) < 0" by simp
    with fl show ?thesis by (simp add: integer_part_def)
  qed
qed

lemma integer_part_rounded:
  "integer_part (rounded_to_one_decimal x)
     = (if x < 0 then - 1 else 1) * int (nat \<lfloor>\<bar>x\<bar> * 10 + 1 / 2\<rfloor> div 10)"
proof -
  let ?m = "\<lfloor>\<bar>x\<bar> * 10 + 1 / 2\<rfloor>"
  have "0 \<le> \<bar>x\<bar> * 10 + 1 / 2" by simp
  then have m: "0 \<le> ?m" by simp
  then have q: "int (nat ?m div 10) = ?m div 10"
    by (simp add: zdiv_int)
  show ?thesis
  proof (cases "x < 0")
    case False
    then have "rounded_to_one_decimal x = of_int ?m / 10"
      by (simp add: rounded_to_one_decimal_def)
    then have "integer_part (rounded_to_one_decimal x) = ?m div 10"
      by (simp only: integer_part_tenths(1) [OF m])
    with False q show ?thesis by simp
  next
    case True
    then have "rounded_to_one_decimal x = - (of_int ?m / 10)"
      by (simp add: rounded_to_one_decimal_def)
    then have "integer_part (rounded_to_one_decimal x) = - (?m div 10)"
      by (simp only: integer_part_tenths(2) [OF m])
    with True q show ?thesis by simp
  qed
qed

lemma parseInt_toFixed_one:
  assumes "\<bar>x\<bar> < 10 ^ 21"
  obtains fixed where "toFixed big 1 (Finite x) = Inr fixed"
    and "parseInt fixed = Finite (of_int (integer_part (rounded_to_one_decimal x)))"
proof
  let ?n = "nat \<lfloor>\<bar>x\<bar> * 10 + 1 / 2\<rfloor>"
  let ?fixed = "(if x < 0 then [CHR ''-''] else []) @
                decimal (?n div 10) @ CHR ''.'' # [digit_char (?n mod 10)]"
  show "toFixed big 1 (Finite x) = Inr ?fixed"
    by (rule toFixed_one [OF assms])
  have "parseInt ?fixed = Finite (of_int ((if x < 0 then - 1 else 1) * int (?n div 10)))"
    by (rule parseInt_digits) simp
  then show "parseInt ?fixed = Finite (of_int (integer_part (rounded_to_one_decimal x)))"
    by (simp only: integer_part_rounded)
qed

text \<open>
  C2, as amended. For a sample whose average usage is finite and below \<open>10\<^sup>2\<^sup>1\<close> in
  magnitude, the primary data point of the gauge is the integer part of the usage
  rounded to one decimal place; the label is suppressed, the units are \<^verbatim>\<open>%\<close>, the
  maximum is 100, the diameter 136 and the font size 28.
\<close>

theorem cpuAvg_integer_part:
  assumes "usage (average cpu) = Finite x" and "\<bar>x\<bar> < 10 ^ 21"
  shows "cpuAvg instant big (Some cpu) =
           Inr \<lparr>label = False,
                data = [Text ''Load'',
                        Number (Finite (of_int (integer_part (rounded_to_one_decimal x))))],
                units = ''%'',
                diameter = 136,
                fontSize = 28,
                gauge_max = 100,
                subtitle = instant ''Avg Usage''\<rparr>"
proof -
  from assms(2) obtain fixed where "toFixed big 1 (Finite x) = Inr fixed"
    and "parseInt fixed = Finite (of_int (integer_part (rounded_to_one_decimal x)))"
    by (rule parseInt_toFixed_one)
  with assms(1) show ?thesis by (simp add: cpuAvg_def)
qed

theorem cpuAvg_integer_part_witness:
  "usage (average (sample (4567 / 100))) = Finite (4567 / 100)
   \<and> \<bar>4567 / 100 :: rat\<bar> < 10 ^ 21
   \<and> cpuAvg id (\<lambda>x. []) (Some (sample (4567 / 100))) =
       Inr \<lparr>label = False,
            data = [Text ''Load'', Number (Finite 45)],
            units = ''%'',
            diameter = 136,
            fontSize = 28,
            gauge_max = 100,
            subtitle = ''Avg Usage''\<rparr>"
proof -
  have u: "usage (average (sample (4567 / 100))) = Finite (4567 / 100)"
    by (simp add: sample_def)
  have small: "\<bar>4567 / 100 :: rat\<bar> < 10 ^ 21" by simp
  have "integer_part (rounded_to_one_decimal (4567 / 100)) = 45" by code_simp
  with cpuAvg_integer_part [OF u small, of id "\<lambda>x. []"] u small show ?thesis by simp
qed

text \<open>
  C2, as stated, fails for the usage \<open>2.5\<close>: \<^verbatim>\<open>toFixed(1)\<close> gives \<^verbatim>\<open>"2.5"\<close>, of
  which \<^verbatim>\<open>parseInt\<close> reads \<open>2\<close>.
\<close>

theorem cpuAvg_one_decimal_counterexample:
  "cpuAvg id (\<lambda>x. []) (Some (sample (5 / 2))) =
       Inr \<lparr>label = False,
            data = [Text ''Load'', Number (Finite 2)],
            units = ''%'',
            diameter = 136,
            fontSize = 28,
            gauge_max = 100,
            subtitle = ''Avg Usage''\<rparr>
   \<and> rounded_to_one_decimal (5 / 2) = 5 / 2
   \<and> Number (Finite 2) \<noteq> Number (Finite (rounded_to_one_decimal (5 / 2)))"
proof -
  have small: "\<bar>5 / 2 :: rat\<bar> < 10 ^ 21" by simp
  have i: "integer_part (rounded_to_one_decimal (5 / 2)) = 2" by code_simp
  have r: "rounded_to_one_decimal (5 / 2) = 5 / 2" by code_simp
  from small obtain fixed where fixed: "toFixed (\<lambda>x. []) 1 (Finite (5 / 2)) = Inr fixed"
    and "parseInt fixed = Finite (of_int (integer_part (rounded_to_one_decimal (5 / 2))))"
    by (rule parseInt_toFixed_one)
  then have "parseInt fixed = Finite (of_int 2)" by (simp only: i)
  then have point: "parseInt fixed = Finite 2" by simp
  have differ: "Number (Finite 2) \<noteq> Number (Finite (rounded_to_one_decimal (5 / 2)))"
    unfolding r by simp
  from fixed point have "cpuAvg id (\<lambda>x. []) (Some (sample (5 / 2))) =
       Inr \<lparr>label = False,
            data = [Text ''Load'', Number (Finite 2)],
            units = ''%'',
            diameter = 136,
            fontSize = 28,
            gauge_max = 100,
            subtitle = ''Avg Usage''\<rparr>"
    by (simp add: cpuAvg_def sample_def)
  with r differ show ?thesis by (simp only: simp_thms)
qed

end
